theory Spec2Isabelle
  imports Main
begin

section \<open>Text: characters and the string methods of the source\<close>

text \<open>
  The splitter of \<^verbatim>\<open>src/app/utils.py\<close> (class \<^verbatim>\<open>DocumentService\<close>) works on Python
  \<^verbatim>\<open>str\<close> values. A \<^typ>\<open>char\<close> stands for the code point of the same number, so the
  embedding covers text over U+0000..U+00FF; \<^term>\<open>length\<close> counts code points there, as
  Python's \<^verbatim>\<open>len\<close> does. The character classes below are Python's on that range.
\<close>

definition codepoint :: "char \<Rightarrow> nat" where
  "codepoint c = of_char c"

definition isspace :: "char \<Rightarrow> bool" where
  \<comment> \<open>\<^verbatim>\<open>str.isspace\<close>, also the class \<^verbatim>\<open>\s\<close> of \<^verbatim>\<open>re\<close> on \<^verbatim>\<open>str\<close> patterns:
      TAB, LF, VT, FF, CR, FS, GS, RS, US, space, NEL, NBSP.\<close>
  "isspace c = (let n = codepoint c in
      (9 \<le> n \<and> n \<le> 13) \<or> (28 \<le> n \<and> n \<le> 32) \<or> n = 133 \<or> n = 160)"

definition is_decimal :: "char \<Rightarrow> bool" where
  \<comment> \<open>the class \<^verbatim>\<open>\d\<close> of \<^verbatim>\<open>re\<close>: the decimal digits 0 to 9.\<close>
  "is_decimal c = (let n = codepoint c in 48 \<le> n \<and> n \<le> 57)"

definition isdigit :: "char \<Rightarrow> bool" where
  \<comment> \<open>\<^verbatim>\<open>str.isdigit\<close>: the decimal digits and the superscripts two, three and one.\<close>
  "isdigit c = (let n = codepoint c in (48 \<le> n \<and> n \<le> 57) \<or> n = 178 \<or> n = 179 \<or> n = 185)"

definition islower :: "char \<Rightarrow> bool" where
  \<comment> \<open>\<^verbatim>\<open>str.islower\<close> on one character: a to z, the ordinal indicators, the micro sign,
      and the lowercase letters of the Latin-1 supplement.\<close>
  "islower c = (let n = codepoint c in
      (97 \<le> n \<and> n \<le> 122) \<or> n = 170 \<or> n = 181 \<or> n = 186
      \<or> (223 \<le> n \<and> n \<le> 246) \<or> (248 \<le> n \<and> n \<le> 255))"

definition is_upper_or_digit :: "char \<Rightarrow> bool" where
  \<comment> \<open>the character class \<^verbatim>\<open>[A-Z0-9]\<close>.\<close>
  "is_upper_or_digit c = (let n = codepoint c in (65 \<le> n \<and> n \<le> 90) \<or> (48 \<le> n \<and> n \<le> 57))"

definition lower_char :: "char \<Rightarrow> char" where
  \<comment> \<open>\<^verbatim>\<open>str.lower\<close> on one character: A to Z and the uppercase letters of the
      Latin-1 supplement move up by 32.\<close>
  "lower_char c = (let n = codepoint c in
      if (65 \<le> n \<and> n \<le> 90) \<or> (192 \<le> n \<and> n \<le> 214) \<or> (216 \<le> n \<and> n \<le> 222)
      then char_of (n + 32) else c)"

definition lower :: "string \<Rightarrow> string" where
  "lower s = map lower_char s"

definition lstrip :: "string \<Rightarrow> string" where
  "lstrip s = dropWhile isspace s"

definition rstrip :: "string \<Rightarrow> string" where
  "rstrip s = rev (dropWhile isspace (rev s))"

definition strip :: "string \<Rightarrow> string" where
  "strip s = lstrip (rstrip s)"

definition startswith :: "string \<Rightarrow> string \<Rightarrow> bool" where
  "startswith s p = (take (length p) s = p)"

definition endswith :: "string \<Rightarrow> string \<Rightarrow> bool" where
  "endswith s p = (length p \<le> length s \<and> drop (length s - length p) s = p)"

fun join :: "string \<Rightarrow> string list \<Rightarrow> string" where
  "join sep [] = []"
| "join sep [x] = x"
| "join sep (x # y # ys) = x @ sep @ join sep (y # ys)"

fun split_from :: "string \<Rightarrow> string \<Rightarrow> string list" where
  \<comment> \<open>\<^verbatim>\<open>str.split()\<close> with the word being read (reversed) in the first argument.\<close>
  "split_from w [] = (if w = [] then [] else [rev w])"
| "split_from w (c # cs) =
     (if isspace c then (if w = [] then split_from [] cs else rev w # split_from [] cs)
      else split_from (c # w) cs)"

definition split_ws :: "string \<Rightarrow> string list" where
  "split_ws s = split_from [] s"

section \<open>The continuation joiner\<close>

text \<open>
  \<^verbatim>\<open>DocumentService.should_join(prev, curr)\<close>: the four tests in the order of the source.
\<close>

definition should_join :: "string \<Rightarrow> string \<Rightarrow> bool" where
  "should_join prev cur =
     (if prev = [] \<or> cur = [] then False
      else if islower (hd cur) then True
      else if \<not> (endswith prev ''.'' \<or> endswith prev ''!'' \<or> endswith prev ''?''
                 \<or> endswith prev [CHR 0x22] \<or> endswith prev [CHR 0x27]) then True
      else if \<not> isdigit (hd cur) \<and> \<not> startswith (lower cur) ''citations'' then True
      else False)"

section \<open>Library functions: line splitting and file name stems\<close>

definition is_linebreak :: "char \<Rightarrow> bool" where
  \<comment> \<open>the line boundaries of \<^verbatim>\<open>str.splitlines\<close>: LF, VT, FF, CR, FS, GS, RS, NEL.\<close>
  "is_linebreak c = (let n = codepoint c in
      (10 \<le> n \<and> n \<le> 13) \<or> (28 \<le> n \<and> n \<le> 30) \<or> n = 133)"

fun splitlines_from :: "string \<Rightarrow> string \<Rightarrow> string list" where
  \<comment> \<open>\<^verbatim>\<open>str.splitlines()\<close> with the line being read (reversed) in the first argument;
      CR LF is one boundary, and a final boundary opens no further line.\<close>
  "splitlines_from w [] = (if w = [] then [] else [rev w])"
| "splitlines_from w [c] = (if is_linebreak c then [rev w] else [rev (c # w)])"
| "splitlines_from w (c # d # cs) =
     (if c = CHR 0x0D \<and> d = CHR 0x0A then rev w # splitlines_from [] cs
      else if is_linebreak c then rev w # splitlines_from [] (d # cs)
      else splitlines_from (c # w) (d # cs))"

definition splitlines :: "string \<Rightarrow> string list" where
  "splitlines s = splitlines_from [] s"

definition rfind :: "char \<Rightarrow> string \<Rightarrow> int" where
  \<comment> \<open>\<^verbatim>\<open>str.rfind\<close> of one character: the last index, or -1.\<close>
  "rfind c s = (if c \<in> set s then int (length s) - 1 - int (length (takeWhile (\<lambda>x. x \<noteq> c) (rev s)))
                else - 1)"

definition splitext_root :: "string \<Rightarrow> string" where
  \<comment> \<open>\<^verbatim>\<open>os.path.splitext(p)[0]\<close> (POSIX): cut at the last dot of the last path
      component, unless only dots come before it in that component.\<close>
  "splitext_root p =
     (let sepIndex = rfind (CHR ''/'') p; dotIndex = rfind (CHR ''.'') p in
      if dotIndex > sepIndex
         \<and> list_ex (\<lambda>c. c \<noteq> CHR ''.'') (take (nat (dotIndex - (sepIndex + 1))) (drop (nat (sepIndex + 1)) p))
      then take (nat dotIndex) p else p)"

section \<open>The heading pattern\<close>

text \<open>
  \<^verbatim>\<open>section_pattern = re.compile(r'^(?P<section>\d+(?:\.\d+)*)(?:[.)]\s*)?(?P<rest>.*)$')\<close>.
  Every quantifier is greedy and the tail \<^verbatim>\<open>(.*)$\<close> accepts whatever is left unless a line
  feed is in the way, so the match is decided by the greedy pass: the longest run of digits,
  then as many groups of a dot and digits as there are, then the separator with the white
  space after it. A shorter choice anywhere leaves a longer remainder, which holds the same
  line feed. \<^verbatim>\<open>.\<close> stops at a line feed and \<^verbatim>\<open>$\<close> accepts the end of the text or the
  place before a final line feed.
\<close>

function digit_groups :: "string \<Rightarrow> string \<times> string" where
  \<comment> \<open>\<^verbatim>\<open>(?:\.\d+)*\<close>: what it consumes and what it leaves.\<close>
  "digit_groups s =
     (case s of
        c # d # r \<Rightarrow>
          (if c = CHR ''.'' \<and> is_decimal d
           then (case digit_groups (dropWhile is_decimal r) of
                   (g, r') \<Rightarrow> (c # d # takeWhile is_decimal r @ g, r'))
           else ([], s))
      | _ \<Rightarrow> ([], s))"
  by pat_completeness auto
termination
  by (relation "measure length") (auto intro: le_imp_less_Suc less_SucI length_dropWhile_le)

definition section_match :: "string \<Rightarrow> (string \<times> string) option" where
  \<comment> \<open>\<^verbatim>\<open>section_pattern.match(s)\<close>: the groups \<^verbatim>\<open>section\<close> and \<^verbatim>\<open>rest\<close>, or \<^verbatim>\<open>None\<close>.\<close>
  "section_match s =
     (let ds = takeWhile is_decimal s in
      if ds = [] then None
      else case digit_groups (dropWhile is_decimal s) of
        (g, r2) \<Rightarrow>
          (let r3 = (case r2 of
                       [] \<Rightarrow> []
                     | c # cs \<Rightarrow> if c = CHR ''.'' \<or> c = CHR '')'' then dropWhile isspace cs else r2)
           in if CHR 0x0A \<notin> set r3 then Some (ds @ g, r3)
              else if last r3 = CHR 0x0A \<and> CHR 0x0A \<notin> set (butlast r3) then Some (ds @ g, butlast r3)
              else None))"

section \<open>The title heuristic\<close>

definition looks_like_title :: "string \<Rightarrow> bool" where
  "looks_like_title s0 =
     (if s0 = [] then False
      else let s = strip s0 in
        if length s > 60 then False
        else if length (split_ws s) > 8 then False
        else if \<not> (case s of [] \<Rightarrow> False | c # _ \<Rightarrow> is_upper_or_digit c) then False
        else if endswith s ''.'' \<or> endswith s '':'' \<or> endswith s '';'' then False
        else True)"

section \<open>The citation stripper\<close>

definition http_match :: "string \<Rightarrow> bool" where
  \<comment> \<open>\<^verbatim>\<open>re.match(r'https?://', s)\<close>: the text starts with the scheme, with or without
      the optional letter.\<close>
  "http_match s = (startswith s ''http://'' \<or> startswith s ''https://'')"

fun strip_loop :: "string list \<Rightarrow> nat \<Rightarrow> string list \<Rightarrow> string list" where
  \<comment> \<open>\<^verbatim>\<open>for i, ln in enumerate(lines)\<close>: the whole list, the index, the lines still to visit.\<close>
  "strip_loop lines i [] = lines"
| "strip_loop lines i (ln # rest) =
     (let s = strip ln in
      if s = [] then strip_loop lines (Suc i) rest
      else if startswith (lower s) ''citations'' then take i lines
      else if http_match s \<or> startswith s ''www.'' then take i lines
      else strip_loop lines (Suc i) rest)"

definition strip_trailing_citations :: "string list \<Rightarrow> string list" where
  "strip_trailing_citations lines = (if lines = [] then lines else strip_loop lines 0 lines)"

section \<open>Section documents\<close>

text \<open>
  A \<^verbatim>\<open>Document\<close> as \<^verbatim>\<open>flush_section\<close> builds it: the four metadata entries
  \<^verbatim>\<open>section\<close>, \<^verbatim>\<open>section_title\<close>, \<^verbatim>\<open>source\<close>, \<^verbatim>\<open>file_name\<close>, and the text.
\<close>

record document =
  doc_section :: string
  doc_section_title :: string
  doc_source :: string
  doc_file_name :: string
  doc_text :: string

definition para_step :: "string list \<times> string list \<Rightarrow> string \<Rightarrow> string list \<times> string list" where
  \<comment> \<open>one round of \<^verbatim>\<open>for ln in content_lines\<close> on \<^verbatim>\<open>(paragraphs, para_buf)\<close>.\<close>
  "para_step st ln =
     (case st of (paragraphs, para_buf) \<Rightarrow>
        if ln = [] then
          (if para_buf \<noteq> [] then (paragraphs @ [strip (join '' '' para_buf)], [])
           else (paragraphs, para_buf))
        else if para_buf \<noteq> [] \<and> should_join (last para_buf) ln
          then (paragraphs, butlast para_buf @ [rstrip (last para_buf) @ '' '' @ lstrip ln])
        else (paragraphs, para_buf @ [ln]))"

definition assemble :: "string list \<Rightarrow> string" where
  \<comment> \<open>the paragraph loop of \<^verbatim>\<open>flush_section\<close>, from \<^verbatim>\<open>paragraphs = []\<close> to \<^verbatim>\<open>doc_text\<close>.\<close>
  "assemble content_lines =
     (case foldl para_step ([], []) content_lines of (paragraphs, para_buf) \<Rightarrow>
        strip (join [CHR 0x0A, CHR 0x0A]
          (if para_buf \<noteq> [] then paragraphs @ [strip (join '' '' para_buf)] else paragraphs)))"

definition flush_section ::
  "document list \<Rightarrow> string option \<Rightarrow> string list \<Rightarrow> string \<Rightarrow> string \<Rightarrow> string option
     \<Rightarrow> document list" where
  \<comment> \<open>the arguments in the order of the source: \<^verbatim>\<open>curr_docs\<close>, \<^verbatim>\<open>current_section\<close>,
      \<^verbatim>\<open>current_text_lines\<close>, \<^verbatim>\<open>source\<close>, \<^verbatim>\<open>filename\<close>, \<^verbatim>\<open>section_title\<close>; the
      list that the source appends to is returned.\<close>
  "flush_section docs sec text_lines src filename title =
     (case sec of
        None \<Rightarrow> docs
      | Some number \<Rightarrow>
          if list_ex (\<lambda>t. strip t \<noteq> []) text_lines then
            (let content_lines = strip_trailing_citations text_lines;
                 body = assemble content_lines
             in if body \<noteq> [] then
                  docs @ [\<lparr>doc_section = number,
                           doc_section_title = (case title of None \<Rightarrow> [] | Some t \<Rightarrow> t),
                           doc_source = src, doc_file_name = filename, doc_text = body\<rparr>]
                else docs)
          else docs)"

section \<open>The section splitter\<close>

text \<open>The variables that the loop over the lines of one file updates.\<close>

record scan =
  curr_docs :: "document list"
  current_section :: "string option"
  section_title :: "string option"
  current_text_lines :: "string list"

definition scan_line :: "string set \<Rightarrow> string \<Rightarrow> string \<Rightarrow> scan \<Rightarrow> string \<Rightarrow> scan" where
  \<comment> \<open>one round of \<^verbatim>\<open>for line in lines\<close>.\<close>
  "scan_line bold_candidates src filename st line =
     (let curr_line = rstrip line in
      if strip curr_line = [] then
        (if current_section st \<noteq> None
         then st\<lparr>current_text_lines := current_text_lines st @ [[]]\<rparr>
         else st)
      else case section_match (strip curr_line) of
        Some (number, rest0) \<Rightarrow>
          (let flushed = flush_section (curr_docs st) (current_section st) (current_text_lines st)
                           src filename (section_title st);
               rest = strip rest0
           in if strip curr_line \<in> bold_candidates \<and> looks_like_title rest
              then st\<lparr>curr_docs := flushed, current_section := Some number,
                      section_title := Some rest, current_text_lines := []\<rparr>
              else st\<lparr>curr_docs := flushed, current_section := Some number,
                      current_text_lines := (if rest \<noteq> [] then [rest] else [])\<rparr>)
      | None \<Rightarrow>
          if current_section st \<noteq> None then
            (if current_text_lines st \<noteq> [] then
               (let prev = last (current_text_lines st) in
                if should_join prev curr_line
                then st\<lparr>current_text_lines :=
                          butlast (current_text_lines st) @ [rstrip prev @ '' '' @ lstrip curr_line]\<rparr>
                else st\<lparr>current_text_lines := current_text_lines st @ [curr_line]\<rparr>)
             else st\<lparr>current_text_lines := current_text_lines st @ [curr_line]\<rparr>)
          else st)"

datatype py_error = IndexError

definition source_label :: "string list \<Rightarrow> string \<Rightarrow> py_error + string" where
  \<comment> \<open>\<^verbatim>\<open>source = lines[0].strip() if not section_pattern.match(lines[0].strip())
      else os.path.splitext(filename)[0]\<close>; \<^verbatim>\<open>lines[0]\<close> raises on an empty list.\<close>
  "source_label lines filename =
     (case lines of
        [] \<Rightarrow> Inl IndexError
      | first # _ \<Rightarrow>
          Inr (if section_match (strip first) = None then strip first else splitext_root filename))"

definition split_file ::
  "document list \<Rightarrow> string \<Rightarrow> string set \<Rightarrow> string list \<Rightarrow> py_error + document list" where
  \<comment> \<open>the body of \<^verbatim>\<open>for pdf_path in pdf_paths\<close> from the source label on: the documents
      so far, the file name, the bold lines and the lines of the file.\<close>
  "split_file docs filename bold_candidates lines =
     (case source_label lines filename of
        Inl e \<Rightarrow> Inl e
      | Inr src \<Rightarrow>
          (let st = foldl (scan_line bold_candidates src filename)
                      \<lparr>curr_docs = docs, current_section = None, section_title = None,
                       current_text_lines = []\<rparr> lines
           in Inr (flush_section (curr_docs st) (current_section st) (current_text_lines st)
                     src filename (section_title st))))"

text \<open>
  What \<^verbatim>\<open>pdfplumber\<close> hands in for one file: its base name and, page by page, the extracted
  text and the text of the bold characters (each \<^verbatim>\<open>or ""\<close>).
\<close>

record pdf =
  pdf_filename :: string
  pdf_pages :: "(string \<times> string) list"

definition bold_lines :: "(string \<times> string) list \<Rightarrow> string set" where
  \<comment> \<open>\<^verbatim>\<open>bold_candidates\<close>: the non-empty trimmed lines of every page's bold text.\<close>
  "bold_lines pages =
     set (filter (\<lambda>bls. bls \<noteq> []) (map strip (concat (map (\<lambda>pg. splitlines (snd pg)) pages))))"

definition file_lines :: "(string \<times> string) list \<Rightarrow> string list" where
  \<comment> \<open>\<^verbatim>\<open>"\n".join(pages_text).splitlines()\<close>.\<close>
  "file_lines pages = splitlines (join [CHR 0x0A] (map fst pages))"

fun documents_from :: "document list \<Rightarrow> pdf list \<Rightarrow> py_error + document list" where
  \<comment> \<open>\<^verbatim>\<open>for pdf_path in pdf_paths\<close>, the files in the order of their sorted paths.\<close>
  "documents_from docs [] = Inr docs"
| "documents_from docs (f # fs) =
     (case split_file docs (pdf_filename f) (bold_lines (pdf_pages f)) (file_lines (pdf_pages f)) of
        Inl e \<Rightarrow> Inl e
      | Inr docs' \<Rightarrow> documents_from docs' fs)"

definition create_documents :: "pdf list \<Rightarrow> py_error + document list" where
  "create_documents pdfs = documents_from [] pdfs"

section \<open>Notions of the specification\<close>

definition citation_start :: "string \<Rightarrow> bool" where
  \<comment> \<open>a line "whose trimmed form either starts with citations (case-insensitive) or matches a
      bare URL shape": the line at which a citation block begins.\<close>
  "citation_start ln =
     (let s = strip ln in
      startswith (lower s) ''citations''
      \<or> startswith s ''http://'' \<or> startswith s ''https://'' \<or> startswith s ''www.'')"

definition terminal_punctuation :: "char set" where
  \<comment> \<open>full stop, exclamation mark, question mark, double and single quote.\<close>
  "terminal_punctuation = {CHR ''.'', CHR ''!'', CHR ''?'', CHR 0x22, CHR 0x27}"

definition accepted_title :: "string set \<Rightarrow> string \<Rightarrow> string option" where
  \<comment> \<open>the title that a line sets: the line matches the heading pattern, "the entire trimmed
      line is present in BoldLineSet and the Title Heuristic accepts the rest text".\<close>
  "accepted_title bold_candidates line =
     (case section_match (strip line) of
        None \<Rightarrow> None
      | Some (number, rest) \<Rightarrow>
          if strip line \<in> bold_candidates \<and> looks_like_title (strip rest) then Some (strip rest)
          else None)"

fun title_in_force :: "string set \<Rightarrow> string option \<Rightarrow> string list \<Rightarrow> string option" where
  \<comment> \<open>the title most recently accepted among the lines, or the one given when there is none.\<close>
  "title_in_force bold_candidates t [] = t"
| "title_in_force bold_candidates t (line # lines) =
     title_in_force bold_candidates
       (case accepted_title bold_candidates line of None \<Rightarrow> t | Some x \<Rightarrow> Some x) lines"

definition emitted_before ::
  "string set \<Rightarrow> string \<Rightarrow> string \<Rightarrow> document list \<Rightarrow> string list \<Rightarrow> document list" where
  \<comment> \<open>the documents so far once the sections opened by the given lines are all flushed.\<close>
  "emitted_before bold_candidates src filename docs lines =
     (let st = foldl (scan_line bold_candidates src filename)
                 \<lparr>curr_docs = docs, current_section = None, section_title = None,
                  current_text_lines = []\<rparr> lines
      in flush_section (curr_docs st) (current_section st) (current_text_lines st)
           src filename (section_title st))"

definition heading_number :: "string \<Rightarrow> string option" where
  \<comment> \<open>the section number that a heading line carries.\<close>
  "heading_number line = map_option fst (section_match (strip line))"

definition body_seed :: "string set \<Rightarrow> string \<Rightarrow> string list" where
  \<comment> \<open>"set the new buffer's title to rest and leave its body empty; otherwise seed the
      body with rest if non-empty".\<close>
  "body_seed bold_candidates line =
     (case section_match (strip line) of
        None \<Rightarrow> []
      | Some (number, rest) \<Rightarrow>
          if strip line \<in> bold_candidates \<and> looks_like_title (strip rest) then []
          else if strip rest \<noteq> [] then [strip rest] else [])"

definition body_step :: "string list \<Rightarrow> string \<Rightarrow> string list" where
  \<comment> \<open>what a line that is no heading does to the body of the open section: an empty-string
      marker for a blank line, else joined to the last entry or appended.\<close>
  "body_step buf line =
     (let curr_line = rstrip line in
      if strip curr_line = [] then buf @ [[]]
      else if buf \<noteq> [] \<and> should_join (last buf) curr_line
        then butlast buf @ [rstrip (last buf) @ '' '' @ lstrip curr_line]
      else buf @ [curr_line])"

definition section_lines :: "(string \<times> string list) list \<Rightarrow> string list" where
  \<comment> \<open>the lines of a run of sections, each a heading line with the lines under it.\<close>
  "section_lines secs = concat (map (\<lambda>s. fst s # snd s) secs)"

text \<open>
  The documents of a run of sections, section by section: each section is flushed with its
  own number, the body its lines build, and the title in force at its heading, which is the
  heading's own rest when the heading is accepted as a title and otherwise the title most
  recently accepted among the lines before it.
\<close>

fun section_blocks ::
  "string set \<Rightarrow> string \<Rightarrow> string \<Rightarrow> string list \<Rightarrow> (string \<times> string list) list \<Rightarrow> document list" where
  "section_blocks bold_candidates src filename pre [] = []"
| "section_blocks bold_candidates src filename pre (s # secs) =
     flush_section [] (heading_number (fst s)) (foldl body_step (body_seed bold_candidates (fst s)) (snd s))
       src filename
       (case accepted_title bold_candidates (fst s) of
          Some t \<Rightarrow> Some t
        | None \<Rightarrow> title_in_force bold_candidates None pre)
     @ section_blocks bold_candidates src filename (pre @ fst s # snd s) secs"

section \<open>The continuation joiner decides by its rules in order\<close>

lemma endswith_single: "endswith s [x] \<longleftrightarrow> s \<noteq> [] \<and> last s = x"
  by (cases s rule: rev_cases) (auto simp: endswith_def)

lemma ends_terminal:
  "(endswith prev ''.'' \<or> endswith prev ''!'' \<or> endswith prev ''?''
      \<or> endswith prev [CHR 0x22] \<or> endswith prev [CHR 0x27])
   \<longleftrightarrow> prev \<noteq> [] \<and> last prev \<in> terminal_punctuation"
  by (auto simp: endswith_single terminal_punctuation_def)

text \<open>
  Claim C6. \<^verbatim>\<open>should_join\<close> is false when either text is empty. Otherwise the first rule
  that applies decides: the current line starts with a lowercase letter (true); the previous
  line does not end in terminal punctuation (true); the current line starts neither with a
  digit nor, lowercased, with "citations" (true); otherwise false. The four sample
  evaluations of the specification hold.
\<close>

theorem should_join_rules:
  "\<not> should_join [] cur
   \<and> \<not> should_join prev []
   \<and> (prev \<noteq> [] \<and> islower c \<longrightarrow> should_join prev (c # cs))
   \<and> (prev \<noteq> [] \<and> \<not> islower c \<and> last prev \<notin> terminal_punctuation
        \<longrightarrow> should_join prev (c # cs))
   \<and> (prev \<noteq> [] \<and> \<not> islower c \<and> last prev \<in> terminal_punctuation
        \<and> \<not> isdigit c \<and> \<not> startswith (lower (c # cs)) ''citations''
        \<longrightarrow> should_join prev (c # cs))
   \<and> (prev \<noteq> [] \<and> \<not> islower c \<and> last prev \<in> terminal_punctuation
        \<and> (isdigit c \<or> startswith (lower (c # cs)) ''citations'')
        \<longrightarrow> \<not> should_join prev (c # cs))
   \<and> should_join ''The law is clear.'' ''and binding.''
   \<and> should_join ''This is final'' ''Next rule applies''
   \<and> \<not> should_join ''This is final.'' ''5. Next rule''
   \<and> \<not> should_join ''This is final.'' ''Citations: see below''"
proof -
  have general:
    "should_join prev (c # cs) =
       (prev \<noteq> [] \<and> (islower c \<or> last prev \<notin> terminal_punctuation
          \<or> (\<not> isdigit c \<and> \<not> startswith (lower (c # cs)) ''citations'')))"
    unfolding should_join_def ends_terminal by auto
  have f1: "should_join ''The law is clear.'' ''and binding.''" by code_simp
  have f2: "should_join ''This is final'' ''Next rule applies''" by code_simp
  have f3: "\<not> should_join ''This is final.'' ''5. Next rule''" by code_simp
  have f4: "\<not> should_join ''This is final.'' ''Citations: see below''" by code_simp
  have e1: "\<not> should_join [] cur" by (simp add: should_join_def)
  have e2: "\<not> should_join prev []" by (simp add: should_join_def)
  show ?thesis using general f1 f2 f3 f4 e1 e2 by blast
qed

theorem should_join_rules_witness:
  "''Done.'' \<noteq> [] \<and> \<not> islower CHR ''N'' \<and> last ''Done.'' \<in> terminal_punctuation
   \<and> \<not> isdigit CHR ''N'' \<and> \<not> startswith (lower ''Next'') ''citations''
   \<and> should_join ''Done.'' ''Next''
   \<and> isdigit CHR ''7'' \<and> \<not> should_join ''Done.'' ''7 days''"
proof -
  have h1: "\<not> islower CHR ''N''" by code_simp
  have h2: "last ''Done.'' \<in> terminal_punctuation" by (simp add: terminal_punctuation_def)
  have h3: "\<not> isdigit CHR ''N''" by code_simp
  have h4: "\<not> startswith (lower ''Next'') ''citations''" by code_simp
  have h5: "\<not> islower CHR ''7''" by code_simp
  have h6: "isdigit CHR ''7''" by code_simp
  have a: "should_join ''Done.'' ''Next''"
    using should_join_rules [where prev = "''Done.''" and c = "CHR ''N''" and cs = "''ext''"]
      h1 h2 h3 h4 by simp
  have b: "\<not> should_join ''Done.'' ''7 days''"
    using should_join_rules [where prev = "''Done.''" and c = "CHR ''7''" and cs = "'' days''"]
      h2 h5 h6 by simp
  show ?thesis using h1 h2 h3 h4 h6 a b by simp
qed

section \<open>The citation stripper cuts at the first citation line\<close>

lemma citation_start_blank: "strip ln = [] \<Longrightarrow> \<not> citation_start ln"
  by (simp add: citation_start_def startswith_def lower_def)

lemma strip_loop_prefix:
  "strip_loop (pre @ rest) (length pre) rest = pre @ takeWhile (\<lambda>ln. \<not> citation_start ln) rest"
proof (induction rest arbitrary: pre)
  case Nil
  show ?case by simp
next
  case (Cons ln rest)
  have step: "strip_loop ((pre @ [ln]) @ rest) (length (pre @ [ln])) rest
              = (pre @ [ln]) @ takeWhile (\<lambda>ln. \<not> citation_start ln) rest"
    by (rule Cons.IH)
  show ?case
  proof (cases "citation_start ln")
    case True
    then have "strip ln \<noteq> []" using citation_start_blank by blast
    with True show ?thesis
      by (auto simp: citation_start_def http_match_def Let_def)
  next
    case False
    with step show ?thesis
      by (auto simp: citation_start_def http_match_def Let_def)
  qed
qed

lemma strip_trailing_citations_takeWhile:
  "strip_trailing_citations lines = takeWhile (\<lambda>ln. \<not> citation_start ln) lines"
  using strip_loop_prefix [of "[]" lines] by (simp add: strip_trailing_citations_def)

lemma takeWhile_first_hit:
  assumes "\<exists>x\<in>set xs. \<not> P x"
  shows "\<exists>i<length xs. \<not> P (xs ! i) \<and> (\<forall>j<i. P (xs ! j)) \<and> takeWhile P xs = take i xs"
proof -
  let ?i = "length (takeWhile P xs)"
  have "takeWhile P xs \<noteq> xs" using assms by (simp add: takeWhile_eq_all_conv)
  moreover have "takeWhile P xs @ dropWhile P xs = xs" by simp
  ultimately have "dropWhile P xs \<noteq> []" by (metis append_Nil2)
  then have "0 < length (dropWhile P xs)" by simp
  moreover have "length (takeWhile P xs) + length (dropWhile P xs) = length xs"
    by (metis length_append takeWhile_dropWhile_id)
  ultimately have lt: "?i < length xs" by linarith
  have "\<not> P (xs ! ?i)" using lt by (rule nth_length_takeWhile)
  moreover have "\<forall>j<?i. P (xs ! j)"
  proof (intro allI impI)
    fix j assume j: "j < ?i"
    then have "takeWhile P xs ! j \<in> set (takeWhile P xs)" by (rule nth_mem)
    then have "P (takeWhile P xs ! j)" by (rule set_takeWhileD [THEN conjunct2])
    then show "P (xs ! j)" using j by (simp add: takeWhile_nth)
  qed
  moreover have "takeWhile P xs = take ?i xs"
    by (rule takeWhile_eq_take)
  ultimately show ?thesis using lt by blast
qed

text \<open>
  Claim C7. The citation stripper returns the lines before the first citation line (a line
  whose trimmed form starts with "citations" in any case, or with http://, https:// or www.),
  and the whole list when there is no such line. The lines "Some legal text.", "",
  "Citations:", "See also Law 4" are cut to the first two, which assemble to
  "Some legal text.".
\<close>

theorem strip_trailing_citations_first_citation:
  "(if \<exists>ln\<in>set lines. citation_start ln
    then \<exists>i<length lines. citation_start (lines ! i) \<and> (\<forall>j<i. \<not> citation_start (lines ! j))
           \<and> strip_trailing_citations lines = take i lines
    else strip_trailing_citations lines = lines)
   \<and> strip_trailing_citations [''Some legal text.'', '''', ''Citations:'', ''See also Law 4'']
       = [''Some legal text.'', '''']
   \<and> assemble [''Some legal text.'', ''''] = ''Some legal text.''"
proof -
  have a: "strip_trailing_citations [''Some legal text.'', '''', ''Citations:'', ''See also Law 4'']
       = [''Some legal text.'', '''']" by code_simp
  have b: "assemble [''Some legal text.'', ''''] = ''Some legal text.''" by code_simp
  have c: "\<exists>i<length lines. citation_start (lines ! i) \<and> (\<forall>j<i. \<not> citation_start (lines ! j))
           \<and> strip_trailing_citations lines = take i lines" if "\<exists>ln\<in>set lines. citation_start ln"
    using takeWhile_first_hit [of lines "\<lambda>ln. \<not> citation_start ln"] that
    by (simp add: strip_trailing_citations_takeWhile)
  have d: "strip_trailing_citations lines = lines" if "\<not> (\<exists>ln\<in>set lines. citation_start ln)"
    using that by (simp add: strip_trailing_citations_takeWhile)
  show ?thesis using a b c d by presburger
qed

theorem strip_trailing_citations_first_citation_witness:
  "(\<exists>ln\<in>set [''Text.'', ''  https://example.org'', ''More.'']. citation_start ln)
   \<and> strip_trailing_citations [''Text.'', ''  https://example.org'', ''More.''] = [''Text.'']
   \<and> \<not> (\<exists>ln\<in>set [''Text.'', ''More.'']. citation_start ln)
   \<and> strip_trailing_citations [''Text.'', ''More.''] = [''Text.'', ''More.'']"
proof -
  let ?xs = "[''Text.'', ''  https://example.org'', ''More.'']"
  have c0: "\<not> citation_start ''Text.''" by code_simp
  have c1: "citation_start ''  https://example.org''" by code_simp
  have c2: "\<not> citation_start ''More.''" by code_simp
  have hit: "\<exists>ln\<in>set ?xs. citation_start ln" using c1 by simp
  from strip_trailing_citations_first_citation [of ?xs, THEN conjunct1]
  have "\<exists>i<length ?xs. citation_start (?xs ! i) \<and> (\<forall>j<i. \<not> citation_start (?xs ! j))
          \<and> strip_trailing_citations ?xs = take i ?xs"
    by (simp only: hit if_True)
  then obtain i where i: "i < length ?xs" "citation_start (?xs ! i)"
      "\<forall>j<i. \<not> citation_start (?xs ! j)" "strip_trailing_citations ?xs = take i ?xs"
    by blast
  have "i = 1"
  proof -
    from i(1) have "i = 0 \<or> i = 1 \<or> i = 2" by auto
    then show ?thesis
    proof (elim disjE)
      assume "i = 0" with i(2) c0 show ?thesis by simp
    next
      assume "i = 1" then show ?thesis .
    next
      assume "i = 2"
      with i(3) have "(1::nat) < 2 \<longrightarrow> \<not> citation_start (?xs ! 1)" by blast
      with c1 show ?thesis by simp
    qed
  qed
  with i(4) have r1: "strip_trailing_citations ?xs = [''Text.'']" by simp
  have none: "\<not> (\<exists>ln\<in>set [''Text.'', ''More.'']. citation_start ln)" using c0 c2 by simp
  from strip_trailing_citations_first_citation [of "[''Text.'', ''More.'']", THEN conjunct1]
  have r2: "strip_trailing_citations [''Text.'', ''More.''] = [''Text.'', ''More.'']"
    by (simp only: none if_False)
  show ?thesis using hit r1 none r2 by blast
qed

text \<open>
  Claim C8. Citation stripping is idempotent: stripping a stripped list changes nothing.
\<close>

theorem strip_trailing_citations_idempotent:
  "strip_trailing_citations (strip_trailing_citations lines) = strip_trailing_citations lines"
  by (simp add: strip_trailing_citations_takeWhile)

theorem strip_trailing_citations_idempotent_witness:
  "strip_trailing_citations (strip_trailing_citations [''a'', ''www.b.org'', ''c'']) = [''a'']"
proof -
  have "strip_trailing_citations [''a'', ''www.b.org'', ''c''] = [''a'']" by code_simp
  with strip_trailing_citations_idempotent [of "[''a'', ''www.b.org'', ''c'']"]
  show ?thesis by simp
qed

section \<open>The end-to-end scenario\<close>

text \<open>
  Claim C1, as the code has it. For the lines "1. Theft", "Theft is punishable by hanging.",
  "", "2. Tax Evasion", "Tax evasion is punishable by banishment.", no bold lines and the
  file name "laws.pdf", the splitter emits two documents with sections "1" and "2", empty
  titles and source "laws". The remainder of each heading seeds the body and the next line
  is joined to it, so the texts are "Theft Theft is punishable by hanging." and
  "Tax Evasion Tax evasion is punishable by banishment.".
\<close>

theorem end_to_end_scenario:
  "split_file [] ''laws.pdf'' {}
     [''1. Theft'', ''Theft is punishable by hanging.'', '''', ''2. Tax Evasion'',
      ''Tax evasion is punishable by banishment.'']
   = Inr [\<lparr>doc_section = ''1'', doc_section_title = '''', doc_source = ''laws'',
            doc_file_name = ''laws.pdf'',
            doc_text = ''Theft Theft is punishable by hanging.''\<rparr>,
          \<lparr>doc_section = ''2'', doc_section_title = '''', doc_source = ''laws'',
            doc_file_name = ''laws.pdf'',
            doc_text = ''Tax Evasion Tax evasion is punishable by banishment.''\<rparr>]"
  by code_simp

text \<open>
  The texts that claim C1 states, without the heading remainders, are not what is emitted.
\<close>

theorem end_to_end_scenario_stated_texts_refuted:
  "split_file [] ''laws.pdf'' {}
     [''1. Theft'', ''Theft is punishable by hanging.'', '''', ''2. Tax Evasion'',
      ''Tax evasion is punishable by banishment.'']
   \<noteq> Inr [\<lparr>doc_section = ''1'', doc_section_title = '''', doc_source = ''laws'',
            doc_file_name = ''laws.pdf'',
            doc_text = ''Theft is punishable by hanging.''\<rparr>,
          \<lparr>doc_section = ''2'', doc_section_title = '''', doc_source = ''laws'',
            doc_file_name = ''laws.pdf'',
            doc_text = ''Tax evasion is punishable by banishment.''\<rparr>]"
  by code_simp

section \<open>Trimming, line splitting and the heading pattern\<close>

lemma rstrip_idem: "rstrip (rstrip s) = rstrip s"
  by (simp add: rstrip_def)

lemma strip_rstrip: "strip (rstrip s) = strip s"
  by (simp add: strip_def rstrip_idem)

lemma lstrip_fixed: "s = [] \<or> \<not> isspace (hd s) \<Longrightarrow> lstrip s = s"
  by (cases s) (auto simp: lstrip_def)

lemma rstrip_fixed: "s = [] \<or> \<not> isspace (last s) \<Longrightarrow> rstrip s = s"
  by (cases s rule: rev_cases) (auto simp: rstrip_def)

lemma rstrip_last: "rstrip s \<noteq> [] \<Longrightarrow> \<not> isspace (last (rstrip s))"
proof -
  assume "rstrip s \<noteq> []"
  then have ne: "dropWhile isspace (rev s) \<noteq> []" by (simp add: rstrip_def)
  then have "\<not> isspace (hd (dropWhile isspace (rev s)))" by (rule hd_dropWhile)
  moreover have "last (rstrip s) = hd (dropWhile isspace (rev s))"
    using ne by (simp add: rstrip_def last_rev)
  ultimately show ?thesis by simp
qed

lemma last_dropWhile: "dropWhile P xs \<noteq> [] \<Longrightarrow> last (dropWhile P xs) = last xs"
  by (induction xs) (auto split: if_splits)

lemma strip_ends:
  assumes "strip s \<noteq> []"
  shows "\<not> isspace (hd (strip s))" and "\<not> isspace (last (strip s))"
proof -
  from assms have ne: "dropWhile isspace (rstrip s) \<noteq> []" by (simp add: strip_def lstrip_def)
  then show "\<not> isspace (hd (strip s))"
    unfolding strip_def lstrip_def by (rule hd_dropWhile)
  from ne have r: "rstrip s \<noteq> []" by auto
  have "last (dropWhile isspace (rstrip s)) = last (rstrip s)"
    using ne by (rule last_dropWhile)
  with rstrip_last [OF r] show "\<not> isspace (last (strip s))" by (simp add: strip_def lstrip_def)
qed

lemma strip_idem: "strip (strip s) = strip s"
proof (cases "strip s = []")
  case True
  have "strip [] = []" by (simp add: strip_def lstrip_def rstrip_def)
  with True show ?thesis by simp
next
  case False
  then have "rstrip (strip s) = strip s" using strip_ends(2) rstrip_fixed by blast
  moreover have "lstrip (strip s) = strip s" using False strip_ends(1) lstrip_fixed by blast
  ultimately show ?thesis by (simp add: strip_def [of "strip s"])
qed






lemma digit_groups_append: "digit_groups s = (g, r) \<Longrightarrow> g @ r = s"
proof (induction s arbitrary: g r rule: digit_groups.induct)
  case (1 s)
  show ?case
  proof (cases s)
    case Nil
    with "1.prems" show ?thesis by simp
  next
    case (Cons c t)
    note s = this
    show ?thesis
    proof (cases t)
      case Nil
      with s "1.prems" show ?thesis by simp
    next
      case (Cons d u)
      show ?thesis
      proof (cases "c = CHR ''.'' \<and> is_decimal d")
        case False
        with s Cons "1.prems" show ?thesis by auto
      next
        case True
        obtain g' r' where rec: "digit_groups (dropWhile is_decimal u) = (g', r')"
          by (cases "digit_groups (dropWhile is_decimal u)")
        from "1.IH" [OF s Cons True rec] have tail: "g' @ r' = dropWhile is_decimal u" .
        from "1.prems" s Cons True rec
        have g: "g = c # d # takeWhile is_decimal u @ g'" and r: "r = r'"
          by (simp_all add: digit_groups.simps [of "c # d # u"])
        have "g @ r = c # d # (takeWhile is_decimal u @ (g' @ r'))" using g r by simp
        also have "\<dots> = c # d # u" by (simp only: tail takeWhile_dropWhile_id)
        finally show ?thesis using s Cons by simp
      qed
    qed
  qed
qed

lemma section_match_None_iff_no_digit:
  "CHR 0x0A \<notin> set s \<Longrightarrow> (section_match s = None) = (takeWhile is_decimal s = [])"
proof -
  assume nolf: "CHR 0x0A \<notin> set s"
  obtain g r2 where dg: "digit_groups (dropWhile is_decimal s) = (g, r2)"
    by (cases "digit_groups (dropWhile is_decimal s)")
  then have "g @ r2 = dropWhile is_decimal s" by (rule digit_groups_append)
  then have "set r2 \<subseteq> set (dropWhile is_decimal s)" by (metis set_append sup_ge2)
  then have sub: "set r2 \<subseteq> set s" using set_dropWhileD by fast
  define r3 where "r3 = (case r2 of [] \<Rightarrow> []
                     | c # cs \<Rightarrow> if c = CHR ''.'' \<or> c = CHR '')'' then dropWhile isspace cs else r2)"
  have "set r3 \<subseteq> set r2"
    unfolding r3_def using set_dropWhileD [of _ isspace] by (cases r2) (auto split: if_splits)
  with sub nolf have "CHR 0x0A \<notin> set r3" by blast
  then show ?thesis
    using dg unfolding section_match_def Let_def r3_def by (simp split: list.splits)
qed

lemma section_match_Nil: "section_match [] = None"
  by (simp add: section_match_def)


lemma assemble_stripped: "strip (assemble ls) = assemble ls"
  by (simp add: assemble_def strip_idem split: prod.splits)

lemma flush_section_grows:
  "\<exists>new. flush_section docs sec ls src fn title = docs @ new
     \<and> (\<forall>d\<in>set new. doc_source d = src \<and> doc_file_name d = fn \<and> strip (doc_text d) \<noteq> []
           \<and> sec = Some (doc_section d)
           \<and> doc_section_title d = (case title of None \<Rightarrow> [] | Some t \<Rightarrow> t))"
proof (cases "flush_section docs sec ls src fn title = docs")
  case True
  then have "flush_section docs sec ls src fn title = docs @ []" by simp
  then show ?thesis by force
next
  case False
  then obtain n where n: "sec = Some n"
    by (cases sec) (auto simp: flush_section_def)
  let ?body = "assemble (strip_trailing_citations ls)"
  let ?d = "\<lparr>doc_section = n, doc_section_title = (case title of None \<Rightarrow> [] | Some t \<Rightarrow> t),
            doc_source = src, doc_file_name = fn, doc_text = ?body\<rparr>"
  from False n have eq: "flush_section docs sec ls src fn title = docs @ [?d]" and ne: "?body \<noteq> []"
    by (auto simp: flush_section_def Let_def split: if_splits)
  have "strip ?body \<noteq> []" using ne by (simp add: assemble_stripped)
  with eq n show ?thesis by auto
qed

lemma flush_section_None: "flush_section docs None ls src fn title = docs"
  by (simp add: flush_section_def)

lemma scan_line_docs:
  "curr_docs (scan_line bold src fn st line) = curr_docs st
   \<or> curr_docs (scan_line bold src fn st line)
       = flush_section (curr_docs st) (current_section st) (current_text_lines st) src fn
           (section_title st)"
  by (simp add: scan_line_def Let_def split: option.splits prod.splits)

lemma scan_line_grows:
  "\<exists>new. curr_docs (scan_line bold src fn st line) = curr_docs st @ new
     \<and> (\<forall>d\<in>set new. doc_source d = src \<and> doc_file_name d = fn \<and> strip (doc_text d) \<noteq> [])"
proof -
  from scan_line_docs [of bold src fn st line] show ?thesis
  proof
    assume "curr_docs (scan_line bold src fn st line) = curr_docs st"
    then have "curr_docs (scan_line bold src fn st line) = curr_docs st @ []" by simp
    then show ?thesis by force
  next
    assume "curr_docs (scan_line bold src fn st line)
       = flush_section (curr_docs st) (current_section st) (current_text_lines st) src fn
           (section_title st)"
    with flush_section_grows [of "curr_docs st" "current_section st" "current_text_lines st"
        src fn "section_title st"]
    show ?thesis by auto
  qed
qed

lemma scan_grows:
  "\<exists>new. curr_docs (foldl (scan_line bold src fn) st lines) = curr_docs st @ new
     \<and> (\<forall>d\<in>set new. doc_source d = src \<and> doc_file_name d = fn \<and> strip (doc_text d) \<noteq> [])"
proof (induction lines arbitrary: st)
  case Nil
  have "curr_docs (foldl (scan_line bold src fn) st []) = curr_docs st @ []" by simp
  then show ?case by force
next
  case (Cons l ls)
  obtain new1 where n1: "curr_docs (scan_line bold src fn st l) = curr_docs st @ new1"
      "\<forall>d\<in>set new1. doc_source d = src \<and> doc_file_name d = fn \<and> strip (doc_text d) \<noteq> []"
    using scan_line_grows [of bold src fn st l] by blast
  obtain new2 where n2: "curr_docs (foldl (scan_line bold src fn) (scan_line bold src fn st l) ls)
       = curr_docs (scan_line bold src fn st l) @ new2"
      "\<forall>d\<in>set new2. doc_source d = src \<and> doc_file_name d = fn \<and> strip (doc_text d) \<noteq> []"
    using Cons.IH [of "scan_line bold src fn st l"] by blast
  have "curr_docs (foldl (scan_line bold src fn) st (l # ls)) = curr_docs st @ (new1 @ new2)"
    using n1(1) n2(1) by simp
  moreover have "\<forall>d\<in>set (new1 @ new2). doc_source d = src \<and> doc_file_name d = fn \<and> strip (doc_text d) \<noteq> []"
    using n1(2) n2(2) by auto
  ultimately show ?case by blast
qed

lemma split_file_grows:
  assumes "source_label lines fn = Inr src"
  shows "\<exists>new. split_file docs fn bold lines = Inr (docs @ new)
     \<and> (\<forall>d\<in>set new. doc_source d = src \<and> doc_file_name d = fn \<and> strip (doc_text d) \<noteq> [])"
proof -
  let ?init = "\<lparr>curr_docs = docs, current_section = None, section_title = None,
                current_text_lines = []\<rparr>"
  let ?st = "foldl (scan_line bold src fn) ?init lines"
  obtain new1 where n1: "curr_docs ?st = curr_docs ?init @ new1"
      "\<forall>d\<in>set new1. doc_source d = src \<and> doc_file_name d = fn \<and> strip (doc_text d) \<noteq> []"
    using scan_grows [of bold src fn ?init lines] by blast
  obtain new2 where n2: "flush_section (curr_docs ?st) (current_section ?st) (current_text_lines ?st)
        src fn (section_title ?st) = curr_docs ?st @ new2"
      "\<forall>d\<in>set new2. doc_source d = src \<and> doc_file_name d = fn \<and> strip (doc_text d) \<noteq> []"
    using flush_section_grows [of "curr_docs ?st" "current_section ?st" "current_text_lines ?st"
        src fn "section_title ?st"] by blast
  have "split_file docs fn bold lines = Inr (docs @ (new1 @ new2))"
    using assms n1(1) n2(1) by (simp add: split_file_def Let_def)
  moreover have "\<forall>d\<in>set (new1 @ new2). doc_source d = src \<and> doc_file_name d = fn \<and> strip (doc_text d) \<noteq> []"
    using n1(2) n2(2) by auto
  ultimately show ?thesis by blast
qed

lemma scan_line_body:
  assumes "section_match (strip line) = None"
  shows "curr_docs (scan_line bold src fn st line) = curr_docs st"
    and "current_section (scan_line bold src fn st line) = current_section st"
    and "section_title (scan_line bold src fn st line) = section_title st"
  using assms by (simp_all add: scan_line_def Let_def strip_rstrip)

lemma scan_body:
  assumes "\<forall>l\<in>set lines. section_match (strip l) = None"
  shows "curr_docs (foldl (scan_line bold src fn) st lines) = curr_docs st
       \<and> current_section (foldl (scan_line bold src fn) st lines) = current_section st
       \<and> section_title (foldl (scan_line bold src fn) st lines) = section_title st"
  using assms
proof (induction lines arbitrary: st)
  case Nil
  show ?case by simp
next
  case (Cons l ls)
  then have l: "section_match (strip l) = None" and ls: "\<forall>x\<in>set ls. section_match (strip x) = None"
    by simp_all
  from Cons.IH [OF ls, of "scan_line bold src fn st l"] scan_line_body [OF l, of bold src fn st]
  show ?case by simp
qed

lemma scan_line_heading:
  assumes "section_match (strip line) = Some (n, r)"
  shows "scan_line bold src fn st line =
     (if strip line \<in> bold \<and> looks_like_title (strip r)
      then st\<lparr>curr_docs := flush_section (curr_docs st) (current_section st)
                  (current_text_lines st) src fn (section_title st),
              current_section := Some n, section_title := Some (strip r),
              current_text_lines := []\<rparr>
      else st\<lparr>curr_docs := flush_section (curr_docs st) (current_section st)
                  (current_text_lines st) src fn (section_title st),
              current_section := Some n,
              current_text_lines := (if strip r \<noteq> [] then [strip r] else [])\<rparr>)"
proof -
  from assms have "strip line \<noteq> []" using section_match_Nil by auto
  with assms show ?thesis by (simp add: scan_line_def Let_def strip_rstrip)
qed

lemma scan_line_title:
  "section_title (scan_line bold src fn st line)
     = (case accepted_title bold line of None \<Rightarrow> section_title st | Some x \<Rightarrow> Some x)"
proof (cases "section_match (strip line)")
  case None
  then show ?thesis by (simp add: scan_line_body(3) accepted_title_def)
next
  case (Some p)
  obtain n r where p: "p = (n, r)" by (cases p)
  with Some have m: "section_match (strip line) = Some (n, r)" by simp
  show ?thesis by (simp add: scan_line_heading [OF m] accepted_title_def m)
qed

lemma scan_title:
  "section_title (foldl (scan_line bold src fn) st lines)
     = title_in_force bold (section_title st) lines"
  by (induction lines arbitrary: st) (simp_all add: scan_line_title)

lemma no_heading_no_documents:
  assumes "\<forall>l\<in>set lines. section_match (strip l) = None" and "lines \<noteq> []"
  shows "split_file docs fn bold lines = Inr docs"
proof -
  from assms(2) obtain src where src: "source_label lines fn = Inr src"
    by (cases lines) (auto simp: source_label_def)
  let ?init = "\<lparr>curr_docs = docs, current_section = None, section_title = None,
                current_text_lines = []\<rparr>"
  from scan_body [OF assms(1), of bold src fn ?init]
  have "curr_docs (foldl (scan_line bold src fn) ?init lines) = docs"
    and "current_section (foldl (scan_line bold src fn) ?init lines) = None" by simp_all
  with src show ?thesis by (simp add: split_file_def Let_def flush_section_None)
qed

lemma split_file_Inr_source:
  "split_file docs fn bold lines = Inr out \<Longrightarrow> \<exists>src. source_label lines fn = Inr src"
  by (cases "source_label lines fn") (auto simp: split_file_def)

lemma documents_from_texts:
  "documents_from docs pdfs = Inr out \<Longrightarrow> \<forall>d\<in>set docs. strip (doc_text d) \<noteq> []
     \<Longrightarrow> \<forall>d\<in>set out. strip (doc_text d) \<noteq> []"
proof (induction pdfs arbitrary: docs)
  case Nil
  then show ?case by simp
next
  case (Cons f fs)
  let ?r = "split_file docs (pdf_filename f) (bold_lines (pdf_pages f)) (file_lines (pdf_pages f))"
  from Cons.prems(1) obtain docs' where r: "?r = Inr docs'" and rest: "documents_from docs' fs = Inr out"
    by (cases ?r) auto
  from split_file_Inr_source [OF r] obtain src
    where src: "source_label (file_lines (pdf_pages f)) (pdf_filename f) = Inr src" by blast
  from split_file_grows [OF src, of docs "bold_lines (pdf_pages f)"] r
  obtain new where "docs' = docs @ new" and "\<forall>d\<in>set new. strip (doc_text d) \<noteq> []" by auto
  with Cons.prems(2) have "\<forall>d\<in>set docs'. strip (doc_text d) \<noteq> []" by auto
  with Cons.IH [OF rest] show ?case by blast
qed

lemma flush_section_markers_only:
  "\<forall>l\<in>set ls. l = [] \<Longrightarrow> flush_section docs sec ls src fn title = docs"
proof -
  assume a: "\<forall>l\<in>set ls. l = []"
  have "strip [] = []" by (simp add: strip_def lstrip_def rstrip_def)
  with a have "\<not> list_ex (\<lambda>t. strip t \<noteq> []) ls" by (auto simp: list_ex_iff)
  then show ?thesis by (simp add: flush_section_def split: option.splits)
qed

text \<open>
  Claim C5. No document is emitted whose trimmed text is empty, whether by the whole run over
  the files or by the splitter on one file; a section buffer that holds nothing but
  empty-string markers is not flushed to the output.
\<close>

theorem emitted_text_never_empty:
  "(create_documents pdfs = Inr out \<longrightarrow> (\<forall>d\<in>set out. strip (doc_text d) \<noteq> []))
   \<and> (split_file [] fn bold lines = Inr out' \<longrightarrow> (\<forall>d\<in>set out'. strip (doc_text d) \<noteq> []))
   \<and> ((\<forall>l\<in>set ls. l = []) \<longrightarrow> flush_section docs sec ls src fn title = docs)"
proof (intro conjI impI)
  assume "create_documents pdfs = Inr out"
  then show "\<forall>d\<in>set out. strip (doc_text d) \<noteq> []"
    using documents_from_texts [of "[]" pdfs out] by (simp add: create_documents_def)
next
  assume r: "split_file [] fn bold lines = Inr out'"
  from split_file_Inr_source [OF r] obtain s where "source_label lines fn = Inr s" by blast
  from split_file_grows [OF this, of "[]" bold] r
  show "\<forall>d\<in>set out'. strip (doc_text d) \<noteq> []" by auto
next
  assume "\<forall>l\<in>set ls. l = []"
  then show "flush_section docs sec ls src fn title = docs" by (rule flush_section_markers_only)
qed

theorem emitted_text_never_empty_witness:
  "split_file [] ''laws.pdf'' {} [''1. Theft'', '''', ''2. Tax'', ''Pay.'']
     = Inr [\<lparr>doc_section = ''1'', doc_section_title = '''', doc_source = ''laws'',
              doc_file_name = ''laws.pdf'', doc_text = ''Theft''\<rparr>,
            \<lparr>doc_section = ''2'', doc_section_title = '''', doc_source = ''laws'',
              doc_file_name = ''laws.pdf'', doc_text = ''Tax Pay.''\<rparr>]
   \<and> strip ''Theft'' \<noteq> [] \<and> strip ''Tax Pay.'' \<noteq> []
   \<and> flush_section [] (Some ''3'') ['''', ''''] ''laws'' ''laws.pdf'' None = []"
proof -
  let ?out = "[\<lparr>doc_section = ''1'', doc_section_title = '''', doc_source = ''laws'',
              doc_file_name = ''laws.pdf'', doc_text = ''Theft''\<rparr>,
            \<lparr>doc_section = ''2'', doc_section_title = '''', doc_source = ''laws'',
              doc_file_name = ''laws.pdf'', doc_text = ''Tax Pay.''\<rparr>]"
  have run: "split_file [] ''laws.pdf'' {} [''1. Theft'', '''', ''2. Tax'', ''Pay.''] = Inr ?out"
    by code_simp
  have markers: "\<forall>l\<in>set ['''', (''''::string)]. l = []" by simp
  from emitted_text_never_empty [where fn = "''laws.pdf''" and bold = "{}"
      and lines = "[''1. Theft'', '''', ''2. Tax'', ''Pay.'']" and out' = ?out
      and ls = "['''', '''']" and docs = "[]" and sec = "Some ''3''" and src = "''laws''"
      and title = None] run markers
  have "\<forall>d\<in>set ?out. strip (doc_text d) \<noteq> []"
    and "flush_section [] (Some ''3'') ['''', ''''] ''laws'' ''laws.pdf'' None = []"
    by blast+
  then show ?thesis using run by simp
qed

section \<open>The source label\<close>

text \<open>
  Claim C4, as the code has it. For a file whose first line is not blank, the source label of
  every document of the file is that first line with leading and trailing white space
  trimmed when the trimmed line does not match the heading pattern, and the file name
  without its extension otherwise; it is the same for all sections of the file.
\<close>

theorem source_label_is_trimmed_first_line:
  "strip first \<noteq> [] \<longrightarrow>
     (\<exists>new. split_file docs fn bold (first # rest) = Inr (docs @ new)
        \<and> (\<forall>d\<in>set new. doc_source d
              = (if section_match (strip first) = None then strip first else splitext_root fn)))"
proof
  assume "strip first \<noteq> []"
  have "source_label (first # rest) fn
          = Inr (if section_match (strip first) = None then strip first else splitext_root fn)"
    by (simp add: source_label_def)
  from split_file_grows [OF this, of docs bold]
  show "\<exists>new. split_file docs fn bold (first # rest) = Inr (docs @ new)
        \<and> (\<forall>d\<in>set new. doc_source d
              = (if section_match (strip first) = None then strip first else splitext_root fn))"
    by blast
qed

theorem source_label_is_trimmed_first_line_witness:
  "strip ''  Laws of the Land '' \<noteq> []
   \<and> section_match (strip ''  Laws of the Land '') = None
   \<and> (\<exists>new. split_file [] ''laws.pdf'' {} [''  Laws of the Land '', ''1. Theft'', ''Theft is bad.'']
               = Inr ([] @ new)
        \<and> (\<forall>d\<in>set new. doc_source d = ''Laws of the Land''))
   \<and> strip ''1. Theft'' \<noteq> []
   \<and> section_match (strip ''1. Theft'') \<noteq> None
   \<and> (\<exists>new. split_file [] ''laws.pdf'' {} [''1. Theft'', ''Theft is bad.''] = Inr ([] @ new)
        \<and> (\<forall>d\<in>set new. doc_source d = ''laws''))"
proof -
  have n: "strip ''  Laws of the Land '' \<noteq> []" by code_simp
  have m: "section_match (strip ''  Laws of the Land '') = None" by code_simp
  have s: "strip ''  Laws of the Land '' = ''Laws of the Land''" by code_simp
  from source_label_is_trimmed_first_line [of "''  Laws of the Land ''" "[]" "''laws.pdf''" "{}"
      "[''1. Theft'', ''Theft is bad.'']"] n
  have a: "\<exists>new. split_file [] ''laws.pdf'' {} [''  Laws of the Land '', ''1. Theft'', ''Theft is bad.'']
               = Inr ([] @ new)
        \<and> (\<forall>d\<in>set new. doc_source d = ''Laws of the Land'')"
    using m s by simp
  have n': "strip ''1. Theft'' \<noteq> []" by code_simp
  have m': "section_match (strip ''1. Theft'') \<noteq> None" by code_simp
  have s': "splitext_root ''laws.pdf'' = ''laws''" by code_simp
  from source_label_is_trimmed_first_line [of "''1. Theft''" "[]" "''laws.pdf''" "{}"
      "[''Theft is bad.'']"] n'
  have b: "\<exists>new. split_file [] ''laws.pdf'' {} [''1. Theft'', ''Theft is bad.''] = Inr ([] @ new)
        \<and> (\<forall>d\<in>set new. doc_source d = ''laws'')"
    using m' s' by simp
  show ?thesis using n m a n' m' b by blast
qed

text \<open>
  Claim C4 as stated fails: a first line with white space around it is trimmed, not kept
  verbatim, and with a blank first line the label is not the first non-blank line.
\<close>

theorem source_label_first_non_blank_verbatim_refuted:
  "split_file [] ''laws.pdf'' {} [''  Laws of the Land '', ''1. Theft'', ''Theft is bad.'']
     = Inr [\<lparr>doc_section = ''1'', doc_section_title = '''', doc_source = ''Laws of the Land'',
              doc_file_name = ''laws.pdf'', doc_text = ''Theft Theft is bad.''\<rparr>]
   \<and> split_file [] ''laws.pdf'' {} ['''', ''Laws of the Land'', ''1. Theft'', ''Theft is bad.'']
     = Inr [\<lparr>doc_section = ''1'', doc_section_title = '''', doc_source = '''',
              doc_file_name = ''laws.pdf'', doc_text = ''Theft Theft is bad.''\<rparr>]"
  by code_simp

text \<open>
  For a file whose first line is empty or blank the splitter returns without an error, and
  when no line of the file matches the heading pattern no document is emitted.
\<close>

lemma blank_first_line_is_no_error:
  "strip first = [] \<longrightarrow>
     (\<exists>new. split_file docs fn bold (first # rest) = Inr (docs @ new))
     \<and> ((\<forall>l\<in>set rest. section_match (strip l) = None)
           \<longrightarrow> split_file docs fn bold (first # rest) = Inr docs)"
proof (intro impI conjI)
  assume blank: "strip first = []"
  then have lab: "source_label (first # rest) fn = Inr []"
    by (simp add: source_label_def section_match_Nil)
  from split_file_grows [OF lab, of docs bold]
  show "\<exists>new. split_file docs fn bold (first # rest) = Inr (docs @ new)" by blast
  assume "\<forall>l\<in>set rest. section_match (strip l) = None"
  with blank have "\<forall>l\<in>set (first # rest). section_match (strip l) = None"
    by (simp add: section_match_Nil)
  then show "split_file docs fn bold (first # rest) = Inr docs"
    by (rule no_heading_no_documents) simp
qed

text \<open>
  Claim C2 says that a file with zero extracted lines or an empty first line is processed
  without an error and that its source label falls back to the file name without its
  extension. For zero lines, which is what a file with one page without text gives, the
  read of \<^verbatim>\<open>lines[0]\<close> raises \<^verbatim>\<open>IndexError\<close> and the whole run fails. After an empty
  first line the run succeeds, but the source label is the empty string and not "laws".
\<close>

theorem zero_lines_raise_and_blank_first_line_label_empty:
  "split_file [] ''laws.pdf'' {} [] = Inl IndexError
   \<and> create_documents [\<lparr>pdf_filename = ''laws.pdf'', pdf_pages = [('''', '''')]\<rparr>]
       = Inl IndexError
   \<and> splitext_root ''laws.pdf'' = ''laws''
   \<and> source_label ['''', ''1. Theft'', ''Theft is bad.''] ''laws.pdf'' = Inr ''''
   \<and> split_file [] ''laws.pdf'' {} ['''', ''1. Theft'', ''Theft is bad.'']
     = Inr [\<lparr>doc_section = ''1'', doc_section_title = '''', doc_source = '''',
              doc_file_name = ''laws.pdf'', doc_text = ''Theft Theft is bad.''\<rparr>]"
  by code_simp

section \<open>A file without lines\<close>

text \<open>
  Claim C9 says that a line sequence without a heading line yields no documents. For the
  empty line sequence, which is what a file with one page without text gives, the read of
  \<^verbatim>\<open>lines[0]\<close> raises \<^verbatim>\<open>IndexError\<close> and the whole run fails. (For a non-empty
  sequence without a heading line the claim holds: lemma \<open>no_heading_no_documents\<close>.)
\<close>

theorem no_lines_raises_index_error:
  "split_file docs fn bold [] = Inl IndexError
   \<and> file_lines [('''', '''')] = []
   \<and> create_documents [\<lparr>pdf_filename = ''laws.pdf'', pdf_pages = [('''', '''')]\<rparr>]
       = Inl IndexError"
proof -
  have a: "split_file docs fn bold [] = Inl IndexError"
    by (simp add: split_file_def source_label_def)
  have b: "file_lines [('''', '''')] = []" by code_simp
  have c: "create_documents [\<lparr>pdf_filename = ''laws.pdf'', pdf_pages = [('''', '''')]\<rparr>]
       = Inl IndexError" by code_simp
  show ?thesis using a b c by simp
qed

section \<open>Lines that start with a digit\<close>



section \<open>Titles are carried forward\<close>

lemma flush_section_append:
  "flush_section docs sec ls src fn t = docs @ flush_section [] sec ls src fn t"
  by (simp add: flush_section_def Let_def split: option.splits)

lemma scan_line_body_lines:
  assumes "section_match (strip l) = None" and "current_section st = Some n"
  shows "current_text_lines (scan_line bold src fn st l) = body_step (current_text_lines st) l"
  using assms by (simp add: scan_line_def body_step_def Let_def strip_rstrip)

lemma scan_body_lines:
  assumes "\<forall>l\<in>set body. section_match (strip l) = None" and "current_section st = Some n"
  shows "current_text_lines (foldl (scan_line bold src fn) st body)
           = foldl body_step (current_text_lines st) body"
  using assms
proof (induction body arbitrary: st)
  case Nil
  show ?case by simp
next
  case (Cons l ls)
  then have l: "section_match (strip l) = None" and ls: "\<forall>x\<in>set ls. section_match (strip x) = None"
    by simp_all
  have sec: "current_section (scan_line bold src fn st l) = Some n"
    using scan_line_body(2) [OF l, of bold src fn st] Cons.prems(2) by simp
  from Cons.IH [OF ls sec] scan_line_body_lines [OF l Cons.prems(2), of bold src fn]
  show ?case by simp
qed

lemma emitted_before_section:
  assumes m: "section_match (strip h) = Some (n, r)"
    and bod: "\<forall>l\<in>set body. section_match (strip l) = None"
  shows "emitted_before bold src fn docs (pre @ h # body)
           = emitted_before bold src fn docs pre
             @ flush_section [] (heading_number h) (foldl body_step (body_seed bold h) body) src fn
                 (case accepted_title bold h of
                    Some t \<Rightarrow> Some t
                  | None \<Rightarrow> title_in_force bold None pre)"
proof -
  let ?init = "\<lparr>curr_docs = docs, current_section = None, section_title = None,
                current_text_lines = []\<rparr>"
  let ?f = "scan_line bold src fn"
  let ?st1 = "foldl ?f ?init pre"
  let ?st2 = "?f ?st1 h"
  let ?st3 = "foldl ?f ?st2 body"
  let ?T = "case accepted_title bold h of Some t \<Rightarrow> Some t
            | None \<Rightarrow> title_in_force bold None pre"
  have t1: "section_title ?st1 = title_in_force bold None pre"
    using scan_title [of bold src fn ?init pre] by simp
  have d2: "curr_docs ?st2 = emitted_before bold src fn docs pre"
    by (simp add: scan_line_heading [OF m] emitted_before_def Let_def)
  have s2: "current_section ?st2 = Some n"
    by (simp add: scan_line_heading [OF m])
  have l2: "current_text_lines ?st2 = body_seed bold h"
    by (simp add: scan_line_heading [OF m] body_seed_def m)
  have t2: "section_title ?st2 = ?T"
    using scan_line_title [of bold src fn ?st1 h] t1 by (simp split: option.splits)
  from scan_body [OF bod, of bold src fn ?st2] d2 s2 t2
  have st3: "curr_docs ?st3 = emitted_before bold src fn docs pre"
      "current_section ?st3 = Some n" "section_title ?st3 = ?T" by simp_all
  have l3: "current_text_lines ?st3 = foldl body_step (body_seed bold h) body"
    using scan_body_lines [OF bod s2, of bold src fn] l2 by simp
  have whole: "foldl ?f ?init (pre @ h # body) = ?st3" by simp
  have hn: "heading_number h = Some n" by (simp add: heading_number_def m)
  have "emitted_before bold src fn docs (pre @ h # body)
          = flush_section (curr_docs ?st3) (current_section ?st3) (current_text_lines ?st3)
              src fn (section_title ?st3)"
    unfolding emitted_before_def Let_def by (simp only: whole)
  also have "\<dots> = flush_section (emitted_before bold src fn docs pre) (heading_number h)
                     (foldl body_step (body_seed bold h) body) src fn ?T"
    by (simp only: st3 l3 hn)
  also have "\<dots> = emitted_before bold src fn docs pre
                   @ flush_section [] (heading_number h)
                       (foldl body_step (body_seed bold h) body) src fn ?T"
    by (rule flush_section_append)
  finally show ?thesis .
qed

lemma emitted_before_sections:
  assumes "\<forall>s\<in>set secs. section_match (strip (fst s)) \<noteq> None
              \<and> (\<forall>l\<in>set (snd s). section_match (strip l) = None)"
  shows "emitted_before bold src fn docs (pre @ section_lines secs)
           = emitted_before bold src fn docs pre @ section_blocks bold src fn pre secs"
  using assms
proof (induction secs arbitrary: pre)
  case Nil
  show ?case by (simp add: section_lines_def)
next
  case (Cons s secs)
  from Cons.prems obtain n r where m: "section_match (strip (fst s)) = Some (n, r)"
    by (cases "section_match (strip (fst s))") auto
  from Cons.prems have bod: "\<forall>l\<in>set (snd s). section_match (strip l) = None" by simp
  from Cons.prems have rest: "\<forall>s\<in>set secs. section_match (strip (fst s)) \<noteq> None
              \<and> (\<forall>l\<in>set (snd s). section_match (strip l) = None)" by simp
  have split: "pre @ section_lines (s # secs) = (pre @ fst s # snd s) @ section_lines secs"
    by (simp add: section_lines_def)
  have "emitted_before bold src fn docs (pre @ section_lines (s # secs))
          = emitted_before bold src fn docs ((pre @ fst s # snd s) @ section_lines secs)"
    by (simp only: split)
  also have "\<dots> = emitted_before bold src fn docs (pre @ fst s # snd s)
                   @ section_blocks bold src fn (pre @ fst s # snd s) secs"
    by (rule Cons.IH [OF rest])
  also have "\<dots> = emitted_before bold src fn docs pre @ section_blocks bold src fn pre (s # secs)"
    by (simp add: emitted_before_section [OF m bod])
  finally show ?case .
qed

lemma emitted_before_preamble:
  assumes "\<forall>l\<in>set pre. section_match (strip l) = None"
  shows "emitted_before bold src fn docs pre = docs"
proof -
  let ?init = "\<lparr>curr_docs = docs, current_section = None, section_title = None,
                current_text_lines = []\<rparr>"
  from scan_body [OF assms, of bold src fn ?init]
  show ?thesis by (simp add: emitted_before_def Let_def flush_section_None)
qed

lemma split_file_emitted:
  "source_label lines fn = Inr src
     \<Longrightarrow> split_file docs fn bold lines = Inr (emitted_before bold src fn docs lines)"
  by (simp add: split_file_def emitted_before_def Let_def)

lemma lines_decompose:
  "\<exists>pre secs. lines = pre @ section_lines secs
      \<and> (\<forall>l\<in>set pre. section_match (strip l) = None)
      \<and> (\<forall>s\<in>set secs. section_match (strip (fst s)) \<noteq> None
              \<and> (\<forall>l\<in>set (snd s). section_match (strip l) = None))"
proof (induction lines rule: rev_induct)
  case Nil
  have "[] = [] @ section_lines []" by (simp add: section_lines_def)
  then show ?case by force
next
  case (snoc x xs)
  then obtain pre secs where d: "xs = pre @ section_lines secs"
      and p: "\<forall>l\<in>set pre. section_match (strip l) = None"
      and s: "\<forall>s\<in>set secs. section_match (strip (fst s)) \<noteq> None
              \<and> (\<forall>l\<in>set (snd s). section_match (strip l) = None)" by blast
  show ?case
  proof (cases "section_match (strip x) = None")
    case False
    have "xs @ [x] = pre @ section_lines (secs @ [(x, [])])"
      using d by (simp add: section_lines_def)
    moreover have "\<forall>s\<in>set (secs @ [(x, [])]). section_match (strip (fst s)) \<noteq> None
              \<and> (\<forall>l\<in>set (snd s). section_match (strip l) = None)"
      using s False by auto
    ultimately show ?thesis using p by blast
  next
    case True
    show ?thesis
    proof (cases secs rule: rev_cases)
      case Nil
      with d have "xs @ [x] = (pre @ [x]) @ section_lines []" by (simp add: section_lines_def)
      moreover have "\<forall>l\<in>set (pre @ [x]). section_match (strip l) = None" using p True by simp
      moreover have "\<forall>s\<in>set ([]::(string \<times> string list) list). section_match (strip (fst s)) \<noteq> None
              \<and> (\<forall>l\<in>set (snd s). section_match (strip l) = None)" by simp
      ultimately show ?thesis by blast
    next
      case (snoc ss t)
      have "xs @ [x] = pre @ section_lines (ss @ [(fst t, snd t @ [x])])"
        using d snoc by (simp add: section_lines_def)
      moreover have "\<forall>s\<in>set (ss @ [(fst t, snd t @ [x])]). section_match (strip (fst s)) \<noteq> None
              \<and> (\<forall>l\<in>set (snd s). section_match (strip l) = None)"
        using s snoc True by auto
      ultimately show ?thesis using p by blast
    qed
  qed
qed

text \<open>
  Claim C3, as the code has it. Every file is a preamble without heading lines followed by
  sections, and the documents emitted for it are those of its sections in order, each
  flushed with the title in force at its heading. So the document of a section whose
  heading line is not accepted as a title carries the title of the most recent earlier
  heading of the same file that was accepted, and the empty string only when no heading
  before it was accepted.
\<close>

theorem every_section_carries_title_in_force:
  "((\<forall>l\<in>set pre. section_match (strip l) = None)
    \<and> (\<forall>s\<in>set secs. section_match (strip (fst s)) \<noteq> None
           \<and> (\<forall>l\<in>set (snd s). section_match (strip l) = None))
    \<and> source_label (pre @ section_lines secs) fn = Inr src
    \<longrightarrow> split_file docs fn bold (pre @ section_lines secs)
          = Inr (docs @ section_blocks bold src fn pre secs))
   \<and> (\<forall>d\<in>set (flush_section [] (Some n) buf src fn t).
         doc_section d = n \<and> doc_section_title d = (case t of None \<Rightarrow> [] | Some x \<Rightarrow> x))
   \<and> (\<exists>pre' secs'. lines = pre' @ section_lines secs'
         \<and> (\<forall>l\<in>set pre'. section_match (strip l) = None)
         \<and> (\<forall>s\<in>set secs'. section_match (strip (fst s)) \<noteq> None
                \<and> (\<forall>l\<in>set (snd s). section_match (strip l) = None)))"
proof (intro conjI impI)
  assume a: "(\<forall>l\<in>set pre. section_match (strip l) = None)
    \<and> (\<forall>s\<in>set secs. section_match (strip (fst s)) \<noteq> None
           \<and> (\<forall>l\<in>set (snd s). section_match (strip l) = None))
    \<and> source_label (pre @ section_lines secs) fn = Inr src"
  then have p: "\<forall>l\<in>set pre. section_match (strip l) = None"
    and s: "\<forall>s\<in>set secs. section_match (strip (fst s)) \<noteq> None
           \<and> (\<forall>l\<in>set (snd s). section_match (strip l) = None)"
    and lab: "source_label (pre @ section_lines secs) fn = Inr src" by blast+
  show "split_file docs fn bold (pre @ section_lines secs)
          = Inr (docs @ section_blocks bold src fn pre secs)"
    by (simp only: split_file_emitted [OF lab] emitted_before_sections [OF s]
        emitted_before_preamble [OF p])
next
  from flush_section_grows [of "[]" "Some n" buf src fn t]
  show "\<forall>d\<in>set (flush_section [] (Some n) buf src fn t).
         doc_section d = n \<and> doc_section_title d = (case t of None \<Rightarrow> [] | Some x \<Rightarrow> x)"
    by auto
next
  show "\<exists>pre' secs'. lines = pre' @ section_lines secs'
         \<and> (\<forall>l\<in>set pre'. section_match (strip l) = None)
         \<and> (\<forall>s\<in>set secs'. section_match (strip (fst s)) \<noteq> None
                \<and> (\<forall>l\<in>set (snd s). section_match (strip l) = None))"
    by (rule lines_decompose)
qed

theorem every_section_carries_title_in_force_witness:
  "split_file [] ''laws.pdf'' {''1. Definitions'', ''3. Penalties''}
     [''Laws'', ''1. Definitions'', ''Terms are defined here.'', ''2. the second part'',
      ''More text.'', ''3. Penalties'', ''Hanging.'', ''4. the last part'', ''End.'']
   = Inr [\<lparr>doc_section = ''1'', doc_section_title = ''Definitions'', doc_source = ''Laws'',
            doc_file_name = ''laws.pdf'', doc_text = ''Terms are defined here.''\<rparr>,
          \<lparr>doc_section = ''2'', doc_section_title = ''Definitions'', doc_source = ''Laws'',
            doc_file_name = ''laws.pdf'', doc_text = ''the second part More text.''\<rparr>,
          \<lparr>doc_section = ''3'', doc_section_title = ''Penalties'', doc_source = ''Laws'',
            doc_file_name = ''laws.pdf'', doc_text = ''Hanging.''\<rparr>,
          \<lparr>doc_section = ''4'', doc_section_title = ''Penalties'', doc_source = ''Laws'',
            doc_file_name = ''laws.pdf'', doc_text = ''the last part End.''\<rparr>]"
proof -
  let ?bold = "{''1. Definitions'', ''3. Penalties''}"
  let ?pre = "[''Laws'']"
  let ?secs = "[(''1. Definitions'', [''Terms are defined here.'']),
                (''2. the second part'', [''More text.'']),
                (''3. Penalties'', [''Hanging.'']),
                (''4. the last part'', [''End.''])]"
  have p: "\<forall>l\<in>set ?pre. section_match (strip l) = None" by code_simp
  have s: "\<forall>s\<in>set ?secs. section_match (strip (fst s)) \<noteq> None
           \<and> (\<forall>l\<in>set (snd s). section_match (strip l) = None)" by code_simp
  have lab: "source_label (?pre @ section_lines ?secs) ''laws.pdf'' = Inr ''Laws''" by code_simp
  have flat: "?pre @ section_lines ?secs
      = [''Laws'', ''1. Definitions'', ''Terms are defined here.'', ''2. the second part'',
         ''More text.'', ''3. Penalties'', ''Hanging.'', ''4. the last part'', ''End.'']"
    by (simp add: section_lines_def)
  have blocks: "section_blocks ?bold ''Laws'' ''laws.pdf'' ?pre ?secs
    = [\<lparr>doc_section = ''1'', doc_section_title = ''Definitions'', doc_source = ''Laws'',
            doc_file_name = ''laws.pdf'', doc_text = ''Terms are defined here.''\<rparr>,
          \<lparr>doc_section = ''2'', doc_section_title = ''Definitions'', doc_source = ''Laws'',
            doc_file_name = ''laws.pdf'', doc_text = ''the second part More text.''\<rparr>,
          \<lparr>doc_section = ''3'', doc_section_title = ''Penalties'', doc_source = ''Laws'',
            doc_file_name = ''laws.pdf'', doc_text = ''Hanging.''\<rparr>,
          \<lparr>doc_section = ''4'', doc_section_title = ''Penalties'', doc_source = ''Laws'',
            doc_file_name = ''laws.pdf'', doc_text = ''the last part End.''\<rparr>]"
    by code_simp
  from every_section_carries_title_in_force [where pre = ?pre and secs = ?secs
      and fn = "''laws.pdf''" and src = "''Laws''" and docs = "[]" and bold = ?bold] p s lab
  have "split_file [] ''laws.pdf'' ?bold (?pre @ section_lines ?secs)
          = Inr ([] @ section_blocks ?bold ''Laws'' ''laws.pdf'' ?pre ?secs)"
    by blast
  then show ?thesis by (simp only: flat blocks append_Nil)
qed

text \<open>
  Claim C3 as stated fails: section 2 below has a heading that is not accepted as a title,
  and its document carries the title "Definitions" of section 1.
\<close>

theorem untitled_section_empty_title_refuted:
  "accepted_title {''1. Definitions''} ''2. the second part'' = None
   \<and> split_file [] ''laws.pdf'' {''1. Definitions''}
       [''1. Definitions'', ''Terms are defined here.'', ''2. the second part'', ''More text.'']
     = Inr [\<lparr>doc_section = ''1'', doc_section_title = ''Definitions'', doc_source = ''laws'',
              doc_file_name = ''laws.pdf'', doc_text = ''Terms are defined here.''\<rparr>,
            \<lparr>doc_section = ''2'', doc_section_title = ''Definitions'', doc_source = ''laws'',
              doc_file_name = ''laws.pdf'', doc_text = ''the second part More text.''\<rparr>]"
  by code_simp

end
